theory Spec2Isabelle
  imports Complex_Main "HOL-Library.Log_Nat"
begin

section \<open>FFChart: the animation-clock override and the frame bridge (lib/node/chart.js)\<close>

text \<open>
  JavaScript numbers are modelled as IEEE binary64 values with their rounded arithmetic
  (see below), objects as records, object references
  into the engine's clip sequence as addresses into an explicit store, \<open>null\<close> and
  \<open>undefined\<close> as \<open>None\<close>, a raised exception as \<open>Inl\<close>, and a loop
  that does not return as \<open>None\<close> of the surrounding option type. Every observable call
  into a collaborator (a clip's step, a destroy hook, the frame hook, the event emitter, the
  stage, the user callback, the chart's dispose) is recorded in an event log, in call order.
\<close>

subsection \<open>Data model\<close>

type_synonym addr = nat

datatype error = TypeError | Thrown string

subsection \<open>JavaScript numbers\<close>

text \<open>
  A number is a finite double, an infinity or NaN. The two zeros are not told apart (no
  operation used here distinguishes them). \<open>fl\<close> rounds a real to the nearest double,
  ties to the even significand: the significand has 53 bits, the exponent of the last place
  is at least -1074 (subnormal numbers), and a result of magnitude \<open>2 ^ 1024\<close> or more
  is an infinity. \<open>floor_log2 x\<close> is the binade of a positive \<open>x\<close>, the \<open>k\<close>
  with \<open>2 ^ k \<le> x < 2 ^ (k + 1)\<close>. A product and a sum of finite numbers is the exact
  result rounded once; \<open>js_lt\<close> is \<open><\<close> and \<open>js_ge\<close> is \<open>>=\<close>, both false
  when an operand is NaN. A decimal literal of the source denotes the double nearest to it.
\<close>

datatype jsnum = Fin real | PInf | NInf | NaN

definition round_even :: "real \<Rightarrow> int" where
  "round_even x =
     (let f = \<lfloor>x\<rfloor>; r = x - of_int f in
      if r < 1 / 2 then f else if 1 / 2 < r then f + 1 else if even f then f else f + 1)"

definition floor_log2 :: "real \<Rightarrow> int" where
  "floor_log2 x = (if 1 \<le> x then bitlen \<lfloor>x\<rfloor> - 1 else - bitlen (\<lceil>1 / x\<rceil> - 1))"

definition overflow_threshold :: real where
  "overflow_threshold = 2 ^ 1024"

definition fl :: "real \<Rightarrow> jsnum" where
  "fl x =
     (if x = 0 then Fin 0
      else let e = max (floor_log2 \<bar>x\<bar> - 52) (- 1074);
               y = of_int (round_even (x / 2 powi e)) * 2 powi e
           in if overflow_threshold \<le> \<bar>y\<bar> then (if 0 < x then PInf else NInf) else Fin y)"



definition js_lt :: "jsnum \<Rightarrow> jsnum \<Rightarrow> bool" where
  "js_lt a b =
     (case (a, b) of
        (Fin x, Fin y) \<Rightarrow> x < y
      | (Fin x, PInf) \<Rightarrow> True
      | (NInf, Fin y) \<Rightarrow> True
      | (NInf, PInf) \<Rightarrow> True
      | _ \<Rightarrow> False)"

definition js_ge :: "jsnum \<Rightarrow> jsnum \<Rightarrow> bool" where
  "js_ge a b = (a \<noteq> NaN \<and> b \<noteq> NaN \<and> \<not> js_lt a b)"

definition js_sign :: "jsnum \<Rightarrow> real" where
  "js_sign a = (case a of Fin x \<Rightarrow> sgn x | PInf \<Rightarrow> 1 | NInf \<Rightarrow> - 1 | NaN \<Rightarrow> 0)"

definition js_mul :: "jsnum \<Rightarrow> jsnum \<Rightarrow> jsnum" where
  "js_mul a b =
     (if a = NaN \<or> b = NaN then NaN
      else case (a, b) of
             (Fin x, Fin y) \<Rightarrow> fl (x * y)
           | _ \<Rightarrow> (if js_sign a * js_sign b = 0 then NaN
                   else if 0 < js_sign a * js_sign b then PInf else NInf))"

definition js_add :: "jsnum \<Rightarrow> jsnum \<Rightarrow> jsnum" where
  "js_add a b =
     (case (a, b) of
        (Fin x, Fin y) \<Rightarrow> fl (x + y)
      | (NaN, _) \<Rightarrow> NaN
      | (_, NaN) \<Rightarrow> NaN
      | (PInf, NInf) \<Rightarrow> NaN
      | (NInf, PInf) \<Rightarrow> NaN
      | (PInf, _) \<Rightarrow> PInf
      | (_, PInf) \<Rightarrow> PInf
      | (NInf, _) \<Rightarrow> NInf
      | (_, NInf) \<Rightarrow> NInf)"


subsection \<open>Objects\<close>

text \<open>
  The log. \<open>UserCallback acc\<close> records a call of the registered callback together with
  the value \<open>this.time\<close> holds at the instant of the call.
\<close>

datatype event =
    ClipStep addr jsnum jsnum
  | ClipDestroy addr
  | OnFrame jsnum
  | Trigger string jsnum
  | StageUpdate
  | NativeUpdate
  | UserCallback jsnum
  | ChartDispose

text \<open>
  A method slot of the engine's animation driver: either the engine's own implementation or
  the replacement that \<open>fixZrender\<close> assigns.
\<close>

datatype impl = Native | Override

text \<open>
  The driver \<open>chart._zr.animation\<close>. The clips are the objects at the addresses
  reachable from \<open>_clipsHead\<close> through \<open>next\<close>; \<open>cstate\<close> is a clip's own
  animation state (what \<open>clip.step\<close> reads and writes), \<open>has_ondestroy\<close> says
  whether \<open>clip.ondestroy\<close> is truthy, \<open>stage_has_update\<close> whether
  \<open>this.stage.update\<close> is.
\<close>

record 'c animation =
  running :: bool
  paused :: bool
  clipsHead :: "addr option"
  nxt :: "addr \<Rightarrow> addr option"
  cstate :: "addr \<Rightarrow> 'c"
  has_ondestroy :: "addr \<Rightarrow> bool"
  stage_has_update :: bool
  startLoop_slot :: impl
  update_slot :: impl

record 'c chart =
  animation :: "'c animation"

text \<open>The host timeline \<open>TimelineUpdate\<close>: ambient time and delta, and the subscribers.\<close>

datatype handler = ProtoMethod | BoundMethod

record timeline =
  TL_time :: jsnum
  TL_delta :: jsnum
  cbs :: "handler list"

text \<open>
  The FFChart instance. \<open>base\<close> is the state inherited from FFImage (display, animations,
  conf), which this class only reaches through inherited methods. The fields \<open>theme\<close>,
  \<open>option\<close>, \<open>optionOpts\<close>, \<open>canvas\<close> and \<open>ctx\<close> are configuration
  data that no branch of the methods below reads; they are left out.
\<close>

record ('c, 'p) ffchart =
  runUpdateNow :: bool
  userCallback :: "('c chart \<Rightarrow> error + 'c chart) option"
  userCallbackTime :: "jsnum option"
  time :: jsnum
  chart :: "'c chart option"
  updateCallback_ref :: "handler option"
  base :: 'p

text \<open>
  The collaborators that are not part of chart.js, taken as parameters:
  \<open>clip_step\<close> is \<open>clip.step(time, delta)\<close> on a clip's own state, returning the
  finished flag and the new state; \<open>native_update\<close> is the engine's own
  \<open>animation.update\<close>; \<open>native_startLoop\<close> the engine's own \<open>_startLoop\<close>;
  \<open>echarts_init\<close> is \<open>echarts.init(canvas, theme)\<close> followed by
  \<open>chart.setOption(option, optionOpts)\<close>; \<open>initTexture\<close>,
  \<open>animations_start\<close> and \<open>super_destroy\<close> are the inherited operations on the
  inherited state.
\<close>

record ('c, 'p) externals =
  clip_step :: "'c \<Rightarrow> jsnum \<Rightarrow> jsnum \<Rightarrow> bool \<times> 'c"
  native_update :: "'c animation \<Rightarrow> bool \<Rightarrow> 'c animation option"
  native_startLoop :: "'c animation \<Rightarrow> 'c animation"
  echarts_init :: "error + 'c chart"
  initTexture :: "'p \<Rightarrow> error + 'p"
  animations_start :: "'p \<Rightarrow> error + 'p"
  super_destroy :: "'p \<Rightarrow> error + 'p"

subsection \<open>Clock override (fixZrender)\<close>

text \<open>
  Modelled from the spec: \<open>removeClip\<close> is the engine's unlink operation, which is
  not part of chart.js. The spec describes the clips as a singly-linked sequence and the
  operation as "unlink the clip from the sequence", which "may invalidate its own successor
  pointer": whatever referred to the clip (the head or a predecessor's \<open>next\<close>) refers to
  the clip's successor afterwards, and the clip's own \<open>next\<close> is cleared.
\<close>

definition removeClip :: "addr \<Rightarrow> 'c animation \<Rightarrow> 'c animation" where
  "removeClip c a =
     a\<lparr>clipsHead := (if clipsHead a = Some c then nxt a c else clipsHead a),
       nxt := (\<lambda>q. if q = c then None
                    else if nxt a q = Some c then nxt a c else nxt a q)\<rparr>"

text \<open>
  The \<open>while (clip)\<close> loop of the replaced \<open>update\<close>. The successor is read before
  the clip is stepped and before it is unlinked.
\<close>

partial_function (option) clip_loop ::
  "('c \<Rightarrow> jsnum \<Rightarrow> jsnum \<Rightarrow> bool \<times> 'c) \<Rightarrow> jsnum \<Rightarrow> jsnum \<Rightarrow> addr option
     \<Rightarrow> 'c animation \<times> event list \<Rightarrow> ('c animation \<times> event list) option" where
  "clip_loop stp t d clip st =
     (case clip of
        None \<Rightarrow> Some st
      | Some c \<Rightarrow>
          (let a = fst st;
               nextClip = nxt a c;
               r = stp (cstate a c) t d;
               a1 = a\<lparr>cstate := (cstate a)(c := snd r)\<rparr>;
               evs1 = snd st @ [ClipStep c t d]
           in if fst r
              then clip_loop stp t d nextClip
                     (removeClip c a1,
                      evs1 @ (if has_ondestroy a1 c then [ClipDestroy c] else []))
              else clip_loop stp t d nextClip (a1, evs1)))"

declare clip_loop.simps [code]

text \<open>
  The function assigned to \<open>animation.update\<close>. It reads time and delta from the host
  timeline. The argument is \<open>notTriggerFrameAndStageUpdate\<close>.
\<close>

definition update_override ::
  "('c, 'p) externals \<Rightarrow> timeline \<Rightarrow> 'c animation \<Rightarrow> bool
     \<Rightarrow> ('c animation \<times> event list) option" where
  "update_override E tln this notTrigger =
     (let t = TL_time tln; delta = TL_delta tln in
      case clip_loop (clip_step E) t delta (clipsHead this) (this, []) of
        None \<Rightarrow> None
      | Some (a, evs) \<Rightarrow>
          if \<not> notTrigger
          then Some (a, evs @ [OnFrame delta, Trigger ''frame'' delta]
                          @ (if stage_has_update a then [StageUpdate] else []))
          else Some (a, evs))"

text \<open>The arrow function assigned to \<open>animation._startLoop\<close>.\<close>

definition startLoop_override :: "'c animation \<Rightarrow> 'c animation" where
  "startLoop_override a = a\<lparr>running := True\<rparr>"

definition fixZrender :: "'c chart \<Rightarrow> 'c chart" where
  "fixZrender ch =
     ch\<lparr>animation := (animation ch)\<lparr>startLoop_slot := Override, update_slot := Override\<rparr>\<rparr>"

text \<open>Calling \<open>animation.update(flag)\<close> and \<open>animation._startLoop()\<close>: whatever the slot holds.\<close>

definition anim_update ::
  "('c, 'p) externals \<Rightarrow> timeline \<Rightarrow> 'c animation \<Rightarrow> bool
     \<Rightarrow> ('c animation \<times> event list) option" where
  "anim_update E tln a notTrigger =
     (case update_slot a of
        Override \<Rightarrow> update_override E tln a notTrigger
      | Native \<Rightarrow>
          (case native_update E a notTrigger of
             None \<Rightarrow> None
           | Some a' \<Rightarrow> Some (a', [NativeUpdate])))"

definition anim_startLoop :: "('c, 'p) externals \<Rightarrow> 'c animation \<Rightarrow> 'c animation" where
  "anim_startLoop E a =
     (case startLoop_slot a of
        Override \<Rightarrow> startLoop_override a
      | Native \<Rightarrow> native_startLoop E a)"

subsection \<open>Frame bridge (FFChart)\<close>

text \<open>The constructor: \<open>updateNow\<close> comes from the configuration, default false.\<close>

definition constructor :: "bool \<Rightarrow> 'p \<Rightarrow> ('c, 'p) ffchart" where
  "constructor updateNow_conf b =
     \<lparr>runUpdateNow = updateNow_conf, userCallback = None, userCallbackTime = None,
      time = Fin 0, chart = None, updateCallback_ref = Some ProtoMethod, base = b\<rparr>"

text \<open>
  \<open>update(func, time = 0.3)\<close>: \<open>None\<close> is the omitted argument, for which the
  parameter takes the default, the double of the literal \<open>0.3\<close>.
\<close>

definition update ::
  "('c, 'p) ffchart \<Rightarrow> ('c chart \<Rightarrow> error + 'c chart) \<Rightarrow> jsnum option \<Rightarrow> ('c, 'p) ffchart" where
  "update this func time_arg =
     (let tm = (case time_arg of None \<Rightarrow> fl 0.3 | Some x \<Rightarrow> x) in
      this\<lparr>userCallback := Some func,
           userCallbackTime :=
             Some (if js_lt tm (Fin 50) then js_mul tm (Fin 1000) else tm)\<rparr>)"

definition updateNow :: "('c, 'p) ffchart \<Rightarrow> ('c, 'p) ffchart" where
  "updateNow this = this\<lparr>runUpdateNow := True\<rparr>"


text \<open>
  Modelled from the spec: the host timeline's \<open>addFrameCallback(fn)\<close> and
  \<open>removeFrameCallback(fn)\<close>, which are not part of chart.js. Subscribing appends the
  function, unsubscribing removes the function that is reference-equal to the argument;
  a \<open>null\<close> argument removes nothing.
\<close>

definition addFrameCallback :: "handler \<Rightarrow> timeline \<Rightarrow> timeline" where
  "addFrameCallback f tln = tln\<lparr>cbs := cbs tln @ [f]\<rparr>"

definition removeFrameCallback :: "handler option \<Rightarrow> timeline \<Rightarrow> timeline" where
  "removeFrameCallback f tln =
     (case f of None \<Rightarrow> tln | Some g \<Rightarrow> tln\<lparr>cbs := remove1 g (cbs tln)\<rparr>)"

text \<open>
  \<open>echartsUpdate(chart, time, delta)\<close>. Reading \<open>chart._zr\<close> on \<open>null\<close> raises
  a TypeError. \<open>animation.update()\<close> is called without an argument, so its flag is
  \<open>undefined\<close>, that is false.
\<close>

definition echartsUpdate ::
  "('c, 'p) externals \<Rightarrow> timeline \<Rightarrow> 'c chart option \<Rightarrow> jsnum \<Rightarrow> jsnum
     \<Rightarrow> (error + 'c chart \<times> event list) option" where
  "echartsUpdate E tln chart_arg tm delta =
     (case chart_arg of
        None \<Rightarrow> Some (Inl TypeError)
      | Some ch \<Rightarrow>
          (let a = animation ch in
           if running a \<and> \<not> paused a
           then (case anim_update E tln a False of
                   None \<Rightarrow> None
                 | Some (a', evs) \<Rightarrow> Some (Inr (ch\<lparr>animation := a'\<rparr>, evs)))
           else Some (Inr (ch, []))))"

text \<open>
  \<open>updateCallback(time, delta)\<close>, the per-frame handler. The comparison
  \<open>this.time >= userCallbackTime\<close> converts a \<open>null\<close> interval to 0. An exception
  is not caught: the call ends with it, and the result holds, besides the exception, the
  instance and the log as the call leaves them. After an exception of the user callback the
  assignment \<open>this.time = 0\<close> has not run (a callback that raises is taken to leave
  the chart as it received it).
\<close>

definition updateCallback ::
  "('c, 'p) externals \<Rightarrow> timeline \<Rightarrow> ('c, 'p) ffchart \<Rightarrow> jsnum \<Rightarrow> jsnum
     \<Rightarrow> (error \<times> ('c, 'p) ffchart \<times> event list + ('c, 'p) ffchart \<times> event list) option" where
  "updateCallback E tln this tm delta =
     (case userCallback this of
        None \<Rightarrow> Some (Inr (this, []))
      | Some cb \<Rightarrow>
          (case echartsUpdate E tln (chart this) tm delta of
             None \<Rightarrow> None
           | Some (Inl e) \<Rightarrow> Some (Inl (e, this, []))
           | Some (Inr (ch, evs)) \<Rightarrow>
               (let this1 = this\<lparr>chart := Some ch, time := js_add (time this) delta\<rparr> in
                if js_ge (time this1)
                     (case userCallbackTime this of None \<Rightarrow> Fin 0 | Some i \<Rightarrow> i)
                then (case cb ch of
                        Inl e \<Rightarrow> Some (Inl (e, this1, evs @ [UserCallback (time this1)]))
                      | Inr ch' \<Rightarrow>
                          Some (Inr (this1\<lparr>chart := Some ch', time := Fin 0\<rparr>,
                                     evs @ [UserCallback (time this1)])))
                else Some (Inr (this1, evs)))))"

text \<open>
  \<open>initECahrts()\<close>: the chart is created, the clock override installed, and the chart
  stored in \<open>this.chart\<close>.
\<close>

definition initECahrts ::
  "('c, 'p) externals \<Rightarrow> ('c, 'p) ffchart \<Rightarrow> error + ('c, 'p) ffchart" where
  "initECahrts E this =
     (case echarts_init E of
        Inl e \<Rightarrow> Inl e
      | Inr ch \<Rightarrow> Inr (this\<lparr>chart := Some (fixZrender ch)\<rparr>))"

text \<open>
  \<open>start()\<close>. Binding the handler raises a TypeError when \<open>this.updateCallback\<close>
  is \<open>null\<close>; calling a \<open>null\<close> user callback raises a TypeError. The callback
  receives \<open>this.chart\<close>, which \<open>initECahrts\<close> has just assigned (the branch for
  an absent chart is never taken).
\<close>

definition start ::
  "('c, 'p) externals \<Rightarrow> timeline \<Rightarrow> ('c, 'p) ffchart
     \<Rightarrow> error + ('c, 'p) ffchart \<times> timeline \<times> event list" where
  "start E tln this =
     (case initECahrts E this of
        Inl e \<Rightarrow> Inl e
      | Inr this1 \<Rightarrow>
     (case initTexture E (base this1) of
        Inl e \<Rightarrow> Inl e
      | Inr b1 \<Rightarrow>
     (case animations_start E b1 of
        Inl e \<Rightarrow> Inl e
      | Inr b2 \<Rightarrow>
     (case updateCallback_ref this1 of
        None \<Rightarrow> Inl TypeError
      | Some m \<Rightarrow>
          (let this2 = this1\<lparr>base := b2, updateCallback_ref := Some BoundMethod\<rparr>;
               tln1 = addFrameCallback BoundMethod tln
           in if runUpdateNow this2
              then (case userCallback this2 of
                      None \<Rightarrow> Inl TypeError
                    | Some cb \<Rightarrow>
                        (case chart this2 of
                           None \<Rightarrow> Inl TypeError
                         | Some ch \<Rightarrow>
                             (case cb ch of
                                Inl e \<Rightarrow> Inl e
                              | Inr ch' \<Rightarrow>
                                  Inr (this2\<lparr>chart := Some ch'\<rparr>, tln1,
                                       [UserCallback (time this2)]))))
              else Inr (this2, tln1, []))))))"

text \<open>
  \<open>destroy()\<close>. \<open>this.chart.dispose()\<close> raises a TypeError when \<open>this.chart\<close>
  is \<open>undefined\<close> or \<open>null\<close>.
\<close>

definition destroy ::
  "('c, 'p) externals \<Rightarrow> timeline \<Rightarrow> ('c, 'p) ffchart
     \<Rightarrow> error + ('c, 'p) ffchart \<times> timeline \<times> event list" where
  "destroy E tln this =
     (let tln1 = removeFrameCallback (updateCallback_ref this) tln in
      case super_destroy E (base this) of
        Inl e \<Rightarrow> Inl e
      | Inr b \<Rightarrow>
          (case chart this of
             None \<Rightarrow> Inl TypeError
           | Some ch \<Rightarrow>
               Inr (this\<lparr>base := b, userCallback := None, updateCallback_ref := None,
                         userCallbackTime := None, chart := None\<rparr>,
                    tln1, [ChartDispose])))"

text \<open>
  Modelled from the spec: the host timeline, which is not part of chart.js, delivers ticks
  in order, one call \<open>fn(time, delta)\<close> per frame, with the same time and delta exposed
  as ambient state during the call. An exception ends the delivery.
\<close>

fun deliver ::
  "('c, 'p) externals \<Rightarrow> timeline \<Rightarrow> ('c, 'p) ffchart \<Rightarrow> (jsnum \<times> jsnum) list
     \<Rightarrow> (error \<times> ('c, 'p) ffchart \<times> event list + ('c, 'p) ffchart \<times> event list) option" where
  "deliver E tln this [] = Some (Inr (this, []))"
| "deliver E tln this (tick # ticks) =
     (case updateCallback E (tln\<lparr>TL_time := fst tick, TL_delta := snd tick\<rparr>) this
             (fst tick) (snd tick) of
        None \<Rightarrow> None
      | Some (Inl r) \<Rightarrow> Some (Inl r)
      | Some (Inr (this1, evs1)) \<Rightarrow>
          (case deliver E tln this1 ticks of
             None \<Rightarrow> None
           | Some (Inl (e, this2, evs2)) \<Rightarrow> Some (Inl (e, this2, evs1 @ evs2))
           | Some (Inr (this2, evs2)) \<Rightarrow> Some (Inr (this2, evs1 @ evs2))))"

subsection \<open>Notions used in the statements\<close>

text \<open>
  \<open>cseg n p xs q\<close>: following the successor pointers \<open>n\<close> from the reference
  \<open>p\<close> visits exactly the clips \<open>xs\<close>, in this order, and arrives at \<open>q\<close>.
  The clip sequence of a driver \<open>a\<close> is \<open>xs\<close> when
  \<open>cseg (nxt a) (clipsHead a) xs None\<close>.
\<close>

fun cseg :: "(addr \<Rightarrow> addr option) \<Rightarrow> addr option \<Rightarrow> addr list \<Rightarrow> addr option \<Rightarrow> bool" where
  "cseg n p [] q = (p = q)"
| "cseg n p (x # xs) q = (p = Some x \<and> cseg n (n x) xs q)"

text \<open>Whether the step of clip \<open>c\<close>, taken in the driver state \<open>a\<close>, reports finished.\<close>

definition finished_in ::
  "('c \<Rightarrow> jsnum \<Rightarrow> jsnum \<Rightarrow> bool \<times> 'c) \<Rightarrow> jsnum \<Rightarrow> jsnum \<Rightarrow> 'c animation \<Rightarrow> addr \<Rightarrow> bool" where
  "finished_in stp t d a c = fst (stp (cstate a c) t d)"

text \<open>
  The log of one pass over the clips \<open>cs\<close>: each clip is stepped once, in order, and
  the destroy hook of a clip that finishes follows its step when the clip has one.
\<close>

fun clip_events ::
  "('c \<Rightarrow> jsnum \<Rightarrow> jsnum \<Rightarrow> bool \<times> 'c) \<Rightarrow> jsnum \<Rightarrow> jsnum \<Rightarrow> 'c animation \<Rightarrow> addr list
     \<Rightarrow> event list" where
  "clip_events stp t d a [] = []"
| "clip_events stp t d a (c # cs) =
     ClipStep c t d
       # (if finished_in stp t d a c \<and> has_ondestroy a c then [ClipDestroy c] else [])
       @ clip_events stp t d a cs"

text \<open>The fields of the driver that the clip traversal leaves alone.\<close>

definition same_driver :: "'c animation \<Rightarrow> 'c animation \<Rightarrow> bool" where
  "same_driver a a' \<longleftrightarrow>
     running a' = running a \<and> paused a' = paused a \<and> has_ondestroy a' = has_ondestroy a \<and>
     stage_has_update a' = stage_has_update a \<and> startLoop_slot a' = startLoop_slot a \<and>
     update_slot a' = update_slot a"

fun is_step_of :: "addr \<Rightarrow> event \<Rightarrow> bool" where
  "is_step_of c (ClipStep x t d) = (x = c)"
| "is_step_of c e = False"

text \<open>How many times a log steps clip \<open>c\<close>.\<close>

definition count_steps :: "addr \<Rightarrow> event list \<Rightarrow> nat" where
  "count_steps c evs = length (filter (is_step_of c) evs)"

fun is_clip_event :: "event \<Rightarrow> bool" where
  "is_clip_event (ClipStep c t d) = True"
| "is_clip_event (ClipDestroy c) = True"
| "is_clip_event e = False"

text \<open>The three side effects of a frame notification.\<close>

fun is_frame_effect :: "event \<Rightarrow> bool" where
  "is_frame_effect (OnFrame d) = True"
| "is_frame_effect (Trigger n d) = True"
| "is_frame_effect StageUpdate = True"
| "is_frame_effect e = False"


text \<open>
  A series of later calls of the replaced \<open>update\<close>, each with the host's time and
  delta and its own flag, with nothing else touching the driver in between.
\<close>

fun advance_n ::
  "('c, 'p) externals \<Rightarrow> (jsnum \<times> jsnum \<times> bool) list \<Rightarrow> 'c animation
     \<Rightarrow> ('c animation \<times> event list) option" where
  "advance_n E [] a = Some (a, [])"
| "advance_n E (call # calls) a =
     (case update_override E \<lparr>TL_time = fst call, TL_delta = fst (snd call), cbs = []\<rparr> a
             (snd (snd call)) of
        None \<Rightarrow> None
      | Some (a1, evs1) \<Rightarrow>
          (case advance_n E calls a1 of
             None \<Rightarrow> None
           | Some (a2, evs2) \<Rightarrow> Some (a2, evs1 @ evs2)))"

text \<open>The log of a call that returned normally.\<close>

definition log_of :: "(error + 's \<times> event list) option \<Rightarrow> event list option" where
  "log_of r = (case r of Some (Inr (s, evs)) \<Rightarrow> Some evs | _ \<Rightarrow> None)"




subsection \<open>Example inputs\<close>

text \<open>
  A clip whose state is its remaining life: a step takes \<open>delta\<close> off and reports
  finished when nothing remains.
\<close>

definition example_step :: "real \<Rightarrow> jsnum \<Rightarrow> jsnum \<Rightarrow> bool \<times> real" where
  "example_step life t d =
     (case d of Fin x \<Rightarrow> (life \<le> x, life - x) | _ \<Rightarrow> (True, life))"

text \<open>
  A running driver with the clips 1, 2 and 3 of lives 10, 100 and 16; clip 1 has a destroy
  hook, the stage has an update operation.
\<close>

definition example_animation :: "real animation" where
  "example_animation =
     \<lparr>running = True, paused = False, clipsHead = Some 1,
      nxt = [1 \<mapsto> 2, 2 \<mapsto> 3],
      cstate = (\<lambda>c. 0)(1 := 10, 2 := 100, 3 := 16),
      has_ondestroy = (\<lambda>c. c = 1),
      stage_has_update = True,
      startLoop_slot = Native, update_slot = Native\<rparr>"

definition example_chart :: "real chart" where
  "example_chart = \<lparr>animation = example_animation\<rparr>"

definition example_ext :: "(real, unit) externals" where
  "example_ext =
     \<lparr>clip_step = example_step,
      native_update = (\<lambda>a flag. Some a),
      native_startLoop = (\<lambda>a. a\<lparr>running := True\<rparr>),
      echarts_init = Inr example_chart,
      initTexture = Inr, animations_start = Inr, super_destroy = Inr\<rparr>"

definition example_timeline :: timeline where
  "example_timeline = \<lparr>TL_time = Fin 16, TL_delta = Fin 16, cbs = []\<rparr>"

text \<open>A fresh instance, the instance after \<open>start()\<close>, and after \<open>destroy()\<close>.\<close>

definition example_new :: "(real, unit) ffchart" where
  "example_new = constructor False ()"

definition example_started :: "(real, unit) ffchart" where
  "example_started =
     example_new\<lparr>chart := Some (fixZrender example_chart),
                 updateCallback_ref := Some BoundMethod\<rparr>"

definition example_destroyed :: "(real, unit) ffchart" where
  "example_destroyed = example_started\<lparr>chart := None, updateCallback_ref := None\<rparr>"

text \<open>A user callback that pauses the driver, and one that raises.\<close>

definition example_callback :: "real chart \<Rightarrow> error + real chart" where
  "example_callback ch = Inr (ch\<lparr>animation := (animation ch)\<lparr>paused := True\<rparr>\<rparr>)"





text \<open>The driver of the example chart once the clock override is installed.\<close>

definition example_driver :: "real animation" where
  "example_driver = animation (fixZrender example_chart)"

section \<open>Rounding to doubles\<close>

lemma round_even_near:
  assumes "\<bar>x - of_int m\<bar> < 1 / 2"
  shows "round_even x = m"
proof (cases "of_int m \<le> x")
  case True
  with assms have "\<lfloor>x\<rfloor> = m" by (intro floor_unique) linarith+
  with assms True show ?thesis by (simp add: round_even_def Let_def)
next
  case False
  with assms have f: "\<lfloor>x\<rfloor> = m - 1" by (intro floor_unique) (simp; linarith)+
  from False assms have "1 / 2 < x - of_int (m - 1)" by (simp; linarith)
  with f show ?thesis by (simp add: round_even_def Let_def)
qed

lemma floor_log2_bounds:
  assumes "0 < x"
  shows "2 powi floor_log2 x \<le> x \<and> x < 2 powi (floor_log2 x + 1)"
proof (cases "1 \<le> x")
  case True
  define n where "n = \<lfloor>x\<rfloor>"
  define b where "b = bitlen n"
  have n: "0 < n" "of_int n \<le> x" "x < of_int n + 1" using True by (simp_all add: n_def)
  from bitlen_bounds [OF n(1)] have bb: "2 ^ nat (b - 1) \<le> n" "n < 2 ^ nat b"
    by (simp_all add: b_def)
  from n(1) have b1: "1 \<le> b" unfolding b_def using bitlen_eq_zero_iff [of n] bitlen_nonneg [of n]
    by linarith
  have fl: "floor_log2 x = b - 1" using True by (simp add: floor_log2_def n_def b_def)
  have lo: "(2::real) powi (b - 1) = of_int (2 ^ nat (b - 1))"
    using b1 by (simp add: power_int_nonneg_exp)
  have hi: "(2::real) powi b = of_int (2 ^ nat b)"
    using b1 by (simp add: power_int_nonneg_exp)
  have "(2::real) powi (b - 1) \<le> x"
  proof -
    have "real_of_int (2 ^ nat (b - 1)) \<le> of_int n" using bb(1) by (simp only: of_int_le_iff)
    with n(2) lo show ?thesis by linarith
  qed
  moreover have "x < (2::real) powi b"
  proof -
    from bb(2) have "n + 1 \<le> 2 ^ nat b" by simp
    then have "real_of_int (n + 1) \<le> of_int (2 ^ nat b)" by (simp only: of_int_le_iff)
    with n(3) hi show ?thesis by simp
  qed
  ultimately show ?thesis by (simp add: fl)
next
  case False
  define y where "y = 1 / x"
  define c where "c = \<lceil>y\<rceil>"
  define b where "b = bitlen (c - 1)"
  have y1: "1 < y" using False assms by (simp add: y_def)
  have c: "of_int c - 1 < y" "y \<le> of_int c" by (simp_all add: c_def) linarith
  from y1 c(2) have "1 < real_of_int c" by linarith
  then have c1: "0 < c - 1" by simp
  from bitlen_bounds [OF c1] have bb: "2 ^ nat (b - 1) \<le> c - 1" "c - 1 < 2 ^ nat b"
    by (simp_all add: b_def)
  from c1 have b1: "1 \<le> b" unfolding b_def
    using bitlen_eq_zero_iff [of "c - 1"] bitlen_nonneg [of "c - 1"] by linarith
  have fl: "floor_log2 x = - b" using False by (simp add: floor_log2_def y_def c_def b_def)
  have x: "x = 1 / y" "0 < y" using assms by (simp_all add: y_def)
  have hi: "y \<le> 2 ^ nat b"
  proof -
    from bb(2) have "c \<le> 2 ^ nat b" by simp
    then have "real_of_int c \<le> of_int (2 ^ nat b)" by (simp only: of_int_le_iff)
    then have "real_of_int c \<le> 2 ^ nat b" by simp
    with c(2) show ?thesis by linarith
  qed
  have lo: "2 ^ nat (b - 1) < y"
  proof -
    have "real_of_int (2 ^ nat (b - 1)) \<le> of_int (c - 1)" using bb(1) by (simp only: of_int_le_iff)
    then have "(2::real) ^ nat (b - 1) \<le> of_int c - 1" by simp
    with c(1) show ?thesis by linarith
  qed
  have "(2::real) powi (- b) = 1 / 2 ^ nat b"
    using b1 by (simp add: power_int_minus power_int_nonneg_exp divide_inverse)
  moreover have "1 / 2 ^ nat b \<le> 1 / y"
    using hi x(2) by (simp add: frac_le)
  ultimately have A: "(2::real) powi (- b) \<le> x" using x(1) by simp
  have "(2::real) powi (- b + 1) = 1 / 2 ^ nat (b - 1)"
  proof -
    have "- b + 1 = - (b - 1)" by simp
    moreover have "(2::real) powi (- (b - 1)) = 1 / 2 ^ nat (b - 1)"
      using b1 by (simp only: power_int_minus_divide) (simp add: power_int_nonneg_exp)
    ultimately show ?thesis by simp
  qed
  moreover have "1 / y < 1 / 2 ^ nat (b - 1)"
    using lo by (simp add: frac_less2)
  ultimately have B: "x < (2::real) powi (- b + 1)" using x(1) by simp
  from A B show ?thesis by (simp add: fl)
qed

lemma floor_log2_eqI:
  assumes "0 < x" and "2 powi k \<le> x" and "x < 2 powi (k + 1)"
  shows "floor_log2 x = k"
proof -
  define j where "j = floor_log2 x"
  from floor_log2_bounds [OF assms(1)] have j: "2 powi j \<le> x" "x < 2 powi (j + 1)"
    by (simp_all add: j_def)
  have "k < j + 1"
  proof (rule ccontr)
    assume "\<not> k < j + 1"
    then have "(2::real) powi (j + 1) \<le> 2 powi k" by (intro power_int_increasing) simp_all
    with assms(2) j(2) show False by linarith
  qed
  moreover have "j < k + 1"
  proof (rule ccontr)
    assume "\<not> j < k + 1"
    then have "(2::real) powi (k + 1) \<le> 2 powi j" by (intro power_int_increasing) simp_all
    with assms(3) j(1) show False by linarith
  qed
  ultimately show ?thesis by (simp add: j_def)
qed

lemma fl_exact:
  assumes "x = of_int m * 2 powi e" and "\<bar>m\<bar> < 2 ^ 53" and "- 1074 \<le> e" and "e \<le> 970"
  shows "fl x = Fin x"
proof (cases "m = 0")
  case True
  with assms(1) show ?thesis by (simp add: fl_def)
next
  case False
  then have x0: "x \<noteq> 0" using assms(1) by simp
  then have pos: "0 < \<bar>x\<bar>" by simp
  define k where "k = floor_log2 \<bar>x\<bar>"
  define e' where "e' = max (k - 52) (- 1074)"
  from floor_log2_bounds [OF pos] have kb: "2 powi k \<le> \<bar>x\<bar>" "\<bar>x\<bar> < 2 powi (k + 1)"
    by (simp_all add: k_def)
  have absx: "\<bar>x\<bar> = real_of_int \<bar>m\<bar> * 2 powi e" using assms(1) by (simp add: abs_mult)
  have "real_of_int \<bar>m\<bar> < of_int (2 ^ 53)" using assms(2) by (simp only: of_int_less_iff)
  then have "real_of_int \<bar>m\<bar> < 2 powi 53" by simp
  then have "\<bar>x\<bar> < 2 powi 53 * 2 powi e" unfolding absx by (intro mult_strict_right_mono) simp_all
  also have "\<dots> = 2 powi (53 + e)" by (simp add: power_int_add)
  finally have "(2::real) powi k < 2 powi (53 + e)" using kb(1) by linarith
  then have "k < 53 + e"
  proof -
    have "\<not> 53 + e \<le> k"
    proof
      assume "53 + e \<le> k"
      then have "(2::real) powi (53 + e) \<le> 2 powi k" by (intro power_int_increasing) simp_all
      with \<open>(2::real) powi k < 2 powi (53 + e)\<close> show False by linarith
    qed
    then show ?thesis by simp
  qed
  with assms(3) have le: "e' \<le> e" by (simp add: e'_def)
  have e'970: "e' \<le> 970" using le assms(4) by simp
  define n where "n = m * 2 ^ nat (e - e')"
  have shift: "(2::real) powi e = 2 ^ nat (e - e') * 2 powi e'"
  proof -
    have "e = (e - e') + e'" by simp
    then have "(2::real) powi e = 2 powi (e - e') * 2 powi e'"
      using power_int_add [of "2::real" "e - e'" e'] by simp
    with le show ?thesis by (simp add: power_int_nonneg_exp)
  qed
  have xn: "x = of_int n * 2 powi e'" using assms(1) shift by (simp add: n_def)
  then have "x / 2 powi e' = of_int n" by simp
  then have r: "round_even (x / 2 powi e') = n" by (intro round_even_near) simp
  have "\<bar>x\<bar> < 2 powi 53 * 2 powi e" by fact
  also have "\<dots> \<le> 2 powi 53 * (2::real) powi 970"
    using assms(4) by (intro mult_left_mono power_int_increasing) simp_all
  also have "\<dots> = 2 powi 1023"
    using power_int_add [of "2::real" 53 970] by simp
  also have "\<dots> < 2 powi 1024" by (intro power_int_strict_increasing) simp_all
  finally have "\<not> overflow_threshold \<le> \<bar>x\<bar>"
    by (simp add: overflow_threshold_def del: power_numeral)
  then have novf: "(overflow_threshold \<le> \<bar>x\<bar>) = False" by simp
  have y: "real_of_int (round_even (x / 2 powi e')) * 2 powi e' = x"
    using r xn by simp
  show ?thesis
    by (simp only: fl_def Let_def x0 if_False y novf flip: k_def e'_def)
qed

lemma fl_int:
  assumes "\<bar>n\<bar> < 2 ^ 53"
  shows "fl (of_int n) = Fin (of_int n)"
  by (rule fl_exact [where m = n and e = 0]) (use assms in simp_all)

lemma fl_numeral [simp]:
  "(numeral n :: int) < 2 ^ 53 \<Longrightarrow> fl (numeral n) = Fin (numeral n)"
  using fl_int [of "numeral n"] by simp

lemma fl_zero [simp]: "fl 0 = Fin 0"
  by (simp add: fl_def)

lemma js_lt_Fin [simp]: "js_lt (Fin x) (Fin y) = (x < y)"
  by (simp add: js_lt_def)

lemma js_ge_Fin [simp]: "js_ge (Fin x) (Fin y) = (y \<le> x)"
  by (auto simp: js_ge_def)


lemma js_mul_Fin: "js_mul (Fin x) (Fin y) = fl (x * y)"
  by (simp add: js_mul_def)


text \<open>
  Evaluating a rounding: given the binade \<open>k\<close> of the argument, the result is the
  rounded significand \<open>m\<close> at the exponent \<open>e\<close> of the last place.
\<close>

lemma fl_evalI:
  assumes "x \<noteq> 0" and "(2::real) powi k \<le> \<bar>x\<bar>" and "\<bar>x\<bar> < (2::real) powi (k + 1)"
    and "e = max (k - 52) (- 1074)" and "e \<le> 970"
    and "round_even (x / 2 powi e) = m" and "\<bar>m\<bar> \<le> 2 ^ 53"
    and "y = of_int m * 2 powi e"
  shows "fl x = Fin y"
proof -
  from assms(1) have "0 < \<bar>x\<bar>" by simp
  from floor_log2_eqI [OF this assms(2,3)] have k: "floor_log2 \<bar>x\<bar> = k" .
  have "\<bar>real_of_int m * 2 powi e\<bar> = \<bar>real_of_int m\<bar> * 2 powi e"
    by (simp add: abs_mult)
  also have "\<dots> \<le> 2 ^ 53 * 2 powi e"
  proof -
    from assms(7) have "real_of_int \<bar>m\<bar> \<le> of_int (2 ^ 53)" by (simp only: of_int_le_iff)
    then have "\<bar>real_of_int m\<bar> \<le> 2 ^ 53" by simp
    then show ?thesis by (intro mult_right_mono) simp_all
  qed
  also have "\<dots> \<le> 2 ^ 53 * (2::real) powi 970"
    using assms(5) by (intro mult_left_mono power_int_increasing) simp_all
  also have "\<dots> = 2 powi 1023"
    using power_int_add [of "2::real" 53 970] by simp
  also have "\<dots> < 2 powi 1024" by (intro power_int_strict_increasing) simp_all
  finally have "\<not> overflow_threshold \<le> \<bar>real_of_int m * 2 powi e\<bar>"
    by (simp add: overflow_threshold_def del: power_numeral)
  with k assms(1,4,6,8) show ?thesis by (simp add: fl_def Let_def)
qed

text \<open>The roundings of the examples.\<close>

lemma lit_1_2: "fl (6 / 5) = Fin (5404319552844595 / 4503599627370496)"
  by (rule fl_evalI [where k = 0 and m = 5404319552844595 and e = "-52"]) (simp_all add: round_even_def Let_def)

lemma mul_1_2: "js_mul (Fin (5404319552844595 / 4503599627370496)) (Fin 1000) = Fin 1200"
  unfolding js_mul_Fin by (rule fl_evalI [where k = 10 and m = 5277655813324800 and e = "-42"]) (simp_all add: round_even_def Let_def)

lemma lit_0_3: "fl (3 / 10) = Fin (5404319552844595 / 18014398509481984)"
  by (rule fl_evalI [where k = "-2" and m = 5404319552844595 and e = "-54"]) (simp_all add: round_even_def Let_def)

lemma mul_0_3: "js_mul (Fin (5404319552844595 / 18014398509481984)) (Fin 1000) = Fin 300"
  unfolding js_mul_Fin by (rule fl_evalI [where k = 8 and m = 5277655813324800 and e = "-44"]) (simp_all add: round_even_def Let_def)

lemma lit_4_03: "fl (403 / 100) = Fin (4537376624575775 / 1125899906842624)"
  by (rule fl_evalI [where k = 2 and m = 4537376624575775 and e = "-50"]) (simp_all add: round_even_def Let_def)

lemma mul_4_03: "js_mul (Fin (4537376624575775 / 1125899906842624)) (Fin 1000) = Fin (8862063719874561 / 2199023255552)"
  unfolding js_mul_Fin by (rule fl_evalI [where k = 11 and m = 8862063719874561 and e = "-41"]) (simp_all add: round_even_def Let_def)

lemma lit_8_05: "fl (161 / 20) = Fin (2265873562520781 / 281474976710656)"
  by (rule fl_evalI [where k = 3 and m = 4531747125041562 and e = "-49"]) (simp_all add: round_even_def Let_def)

lemma mul_8_05: "js_mul (Fin (2265873562520781 / 281474976710656)) (Fin 1000) = Fin (8851068603596801 / 1099511627776)"
  unfolding js_mul_Fin by (rule fl_evalI [where k = 12 and m = 8851068603596801 and e = "-40"]) (simp_all add: round_even_def Let_def)















section \<open>Clip sequences in the store\<close>

lemma cseg_append: "cseg n p (xs @ ys) q \<longleftrightarrow> (\<exists>r. cseg n p xs r \<and> cseg n r ys q)"
  by (induction xs arbitrary: p) auto

lemma cseg_cong: "(\<And>x. x \<in> set xs \<Longrightarrow> n' x = n x) \<Longrightarrow> cseg n' p xs q = cseg n p xs q"
  by (induction xs arbitrary: p) auto

lemma cseg_unique: "cseg n p xs None \<Longrightarrow> cseg n p ys None \<Longrightarrow> xs = ys"
proof (induction xs arbitrary: p ys)
  case Nil
  then show ?case by (cases ys) auto
next
  case (Cons x xs)
  then show ?case by (cases ys) auto
qed

text \<open>A sequence that ends in \<open>null\<close> visits no clip twice.\<close>

lemma cseg_distinct: "cseg n p xs None \<Longrightarrow> distinct xs"
proof (induction xs arbitrary: p)
  case Nil
  then show ?case by simp
next
  case (Cons x xs)
  have rest: "cseg n (n x) xs None" using Cons.prems by simp
  have "x \<notin> set xs"
  proof
    assume "x \<in> set xs"
    then obtain us vs where xs: "xs = us @ x # vs" by (auto simp: in_set_conv_decomp)
    with rest have "cseg n (n x) vs None" by (auto simp: cseg_append)
    with rest have "xs = vs" by (rule cseg_unique)
    with xs show False by simp
  qed
  with Cons.IH [OF rest] show ?case by simp
qed

lemma cseg_no_pointer_to:
  "cseg n p xs None \<Longrightarrow> c \<notin> set xs \<Longrightarrow> x \<in> set xs \<Longrightarrow> n x \<noteq> Some c"
proof (induction xs arbitrary: p)
  case Nil
  then show ?case by simp
next
  case (Cons y ys)
  show ?case
  proof (cases "x = y")
    case True
    with Cons.prems show ?thesis by (cases ys) auto
  next
    case False
    with Cons show ?thesis by auto
  qed
qed

lemma nxt_removeClip_other:
  "x \<noteq> c \<Longrightarrow> nxt a x \<noteq> Some c \<Longrightarrow> nxt (removeClip c a) x = nxt a x"
  by (simp add: removeClip_def)

lemma cseg_removeClip_rest:
  assumes "cseg (nxt a) p cs None" and "c \<notin> set cs"
  shows "cseg (nxt (removeClip c a)) p cs None"
proof -
  have "nxt (removeClip c a) x = nxt a x" if "x \<in> set cs" for x
  proof -
    from that assms(2) have "x \<noteq> c" by blast
    moreover from assms that have "nxt a x \<noteq> Some c" by (rule cseg_no_pointer_to)
    ultimately show ?thesis by (rule nxt_removeClip_other)
  qed
  then have "cseg (nxt (removeClip c a)) p cs None = cseg (nxt a) p cs None"
    by (rule cseg_cong)
  with assms(1) show ?thesis by simp
qed

lemma cseg_removeClip_skip:
  assumes "cseg (nxt a) p (ps @ c # cs) None" and "distinct (ps @ c # cs)"
  shows "cseg (nxt (removeClip c a)) (if p = Some c then nxt a c else p) (ps @ cs) None"
  using assms
proof (induction ps arbitrary: p)
  case Nil
  then have "cseg (nxt a) (nxt a c) cs None" and "c \<notin> set cs" and "p = Some c" by simp_all
  then show ?case by (simp add: cseg_removeClip_rest)
next
  case (Cons y ys)
  from Cons.prems have p: "p = Some y" and yc: "y \<noteq> c"
    and rest: "cseg (nxt a) (nxt a y) (ys @ c # cs) None"
    and d: "distinct (ys @ c # cs)" by simp_all
  have step: "nxt (removeClip c a) y = (if nxt a y = Some c then nxt a c else nxt a y)"
    using yc by (simp add: removeClip_def)
  have "cseg (nxt (removeClip c a)) (nxt (removeClip c a) y) (ys @ cs) None"
    using Cons.IH [OF rest d] by (simp only: step)
  with p yc show ?case by simp
qed

text \<open>Unlinking a clip of the sequence leaves the sequence without it.\<close>

lemma clip_seq_removeClip:
  assumes "cseg (nxt a) (clipsHead a) (ps @ c # cs) None" and "distinct (ps @ c # cs)"
  shows "cseg (nxt (removeClip c a)) (clipsHead (removeClip c a)) (ps @ cs) None"
proof -
  have "clipsHead (removeClip c a) = (if clipsHead a = Some c then nxt a c else clipsHead a)"
    by (simp add: removeClip_def)
  with cseg_removeClip_skip [OF assms] show ?thesis by (simp only:)
qed

lemma clip_events_cong:
  "(\<And>x. x \<in> set cs \<Longrightarrow> cstate a' x = cstate a x \<and> has_ondestroy a' x = has_ondestroy a x)
     \<Longrightarrow> clip_events stp t d a' cs = clip_events stp t d a cs"
  by (induction cs) (auto simp: finished_in_def)

section \<open>The clip traversal\<close>

text \<open>
  The loop invariant: \<open>ps\<close> are the clips already visited that stay in the sequence,
  \<open>cs\<close> the clips still to visit, \<open>cur\<close> the loop variable.
\<close>

lemma clip_loop_traverses:
  assumes "cseg (nxt a) (clipsHead a) (ps @ cs) None" and "distinct (ps @ cs)"
    and "cseg (nxt a) cur cs None"
  shows "\<exists>a'. clip_loop stp t d cur (a, evs) = Some (a', evs @ clip_events stp t d a cs)
            \<and> cseg (nxt a') (clipsHead a') (ps @ filter (\<lambda>c. \<not> finished_in stp t d a c) cs) None
            \<and> cstate a' = (\<lambda>c. if c \<in> set cs then snd (stp (cstate a c) t d) else cstate a c)
            \<and> same_driver a a'
            \<and> (\<forall>x. x \<notin> set cs \<and> nxt a x = None \<longrightarrow> nxt a' x = None)
            \<and> (\<forall>x \<in> set cs. finished_in stp t d a x \<longrightarrow> nxt a' x = None)"
  using assms
proof (induction cs arbitrary: a ps cur evs)
  case Nil
  then have "cur = None" by simp
  with Nil show ?case by (subst clip_loop.simps) (simp add: same_driver_def)
next
  case (Cons c cs)
  from Cons.prems have cur: "cur = Some c" and rest: "cseg (nxt a) (nxt a c) cs None" by auto
  from Cons.prems have cnot: "c \<notin> set cs" by auto
  define r where "r = stp (cstate a c) t d"
  define a1 where "a1 = a\<lparr>cstate := (cstate a)(c := snd r)\<rparr>"
  have a1_nxt: "nxt a1 = nxt a" "clipsHead a1 = clipsHead a" by (simp_all add: a1_def)
  show ?case
  proof (cases "fst r")
    case True
    define a2 where "a2 = removeClip c a1"
    define evs2 where
      "evs2 = (evs @ [ClipStep c t d]) @ (if has_ondestroy a1 c then [ClipDestroy c] else [])"
    have step: "clip_loop stp t d cur (a, evs) = clip_loop stp t d (nxt a c) (a2, evs2)"
      using True by (subst clip_loop.simps) (simp add: cur r_def a1_def a2_def evs2_def Let_def)
    have h1: "cseg (nxt a2) (clipsHead a2) (ps @ cs) None"
      unfolding a2_def using Cons.prems(1,2) by (intro clip_seq_removeClip) (simp_all add: a1_nxt)
    have h2: "distinct (ps @ cs)" using Cons.prems(2) by simp
    have h3: "cseg (nxt a2) (nxt a c) cs None"
      unfolding a2_def using rest cnot by (intro cseg_removeClip_rest) (simp_all add: a1_nxt)
    from Cons.IH [OF h1 h2 h3, of evs2] obtain a' where
      run: "clip_loop stp t d (nxt a c) (a2, evs2) = Some (a', evs2 @ clip_events stp t d a2 cs)"
      and seq: "cseg (nxt a') (clipsHead a') (ps @ filter (\<lambda>c. \<not> finished_in stp t d a2 c) cs) None"
      and cst: "cstate a' = (\<lambda>x. if x \<in> set cs then snd (stp (cstate a2 x) t d) else cstate a2 x)"
      and drv: "same_driver a2 a'"
      and keep: "\<forall>x. x \<notin> set cs \<and> nxt a2 x = None \<longrightarrow> nxt a' x = None"
      and cut: "\<forall>x \<in> set cs. finished_in stp t d a2 x \<longrightarrow> nxt a' x = None" by blast
    have same: "\<And>x. x \<in> set cs \<Longrightarrow> cstate a2 x = cstate a x \<and> has_ondestroy a2 x = has_ondestroy a x"
      using cnot by (auto simp: a2_def a1_def removeClip_def)
    have ev: "clip_events stp t d a2 cs = clip_events stp t d a cs"
      using same by (rule clip_events_cong)
    have fin: "\<And>x. x \<in> set cs \<Longrightarrow> finished_in stp t d a2 x = finished_in stp t d a x"
      using same by (simp add: finished_in_def)
    have fl: "filter (\<lambda>c. \<not> finished_in stp t d a2 c) cs = filter (\<lambda>c. \<not> finished_in stp t d a c) cs"
      using fin by (intro filter_cong) simp_all
    have nxt2: "\<And>x. nxt a x = None \<Longrightarrow> nxt a2 x = None" "nxt a2 c = None"
      by (simp_all add: a2_def a1_def removeClip_def)
    have "clip_loop stp t d cur (a, evs) = Some (a', evs @ clip_events stp t d a (c # cs))"
      using step run ev True by (simp add: evs2_def r_def a1_def finished_in_def)
    moreover have "cseg (nxt a') (clipsHead a') (ps @ filter (\<lambda>c. \<not> finished_in stp t d a c) (c # cs)) None"
      using seq fl True by (simp add: finished_in_def r_def)
    moreover have "cstate a' = (\<lambda>x. if x \<in> set (c # cs) then snd (stp (cstate a x) t d) else cstate a x)"
      using cst same cnot by (auto simp: fun_eq_iff a2_def a1_def removeClip_def r_def)
    moreover have "same_driver a a'"
      using drv by (simp add: same_driver_def a2_def a1_def removeClip_def)
    moreover have "\<forall>x. x \<notin> set (c # cs) \<and> nxt a x = None \<longrightarrow> nxt a' x = None"
      using keep nxt2 by simp
    moreover have "\<forall>x \<in> set (c # cs). finished_in stp t d a x \<longrightarrow> nxt a' x = None"
      using cut fin keep nxt2(2) cnot by auto
    ultimately show ?thesis by blast
  next
    case False
    define evs1 where "evs1 = evs @ [ClipStep c t d]"
    have step: "clip_loop stp t d cur (a, evs) = clip_loop stp t d (nxt a c) (a1, evs1)"
      using False by (subst clip_loop.simps) (simp add: cur r_def a1_def evs1_def Let_def)
    have h1: "cseg (nxt a1) (clipsHead a1) ((ps @ [c]) @ cs) None"
      using Cons.prems(1) by (simp add: a1_nxt)
    have h2: "distinct ((ps @ [c]) @ cs)" using Cons.prems(2) by simp
    have h3: "cseg (nxt a1) (nxt a c) cs None" using rest by (simp add: a1_nxt)
    from Cons.IH [OF h1 h2 h3, of evs1] obtain a' where
      run: "clip_loop stp t d (nxt a c) (a1, evs1) = Some (a', evs1 @ clip_events stp t d a1 cs)"
      and seq: "cseg (nxt a') (clipsHead a') ((ps @ [c]) @ filter (\<lambda>c. \<not> finished_in stp t d a1 c) cs) None"
      and cst: "cstate a' = (\<lambda>x. if x \<in> set cs then snd (stp (cstate a1 x) t d) else cstate a1 x)"
      and drv: "same_driver a1 a'"
      and keep: "\<forall>x. x \<notin> set cs \<and> nxt a1 x = None \<longrightarrow> nxt a' x = None"
      and cut: "\<forall>x \<in> set cs. finished_in stp t d a1 x \<longrightarrow> nxt a' x = None" by blast
    have same: "\<And>x. x \<in> set cs \<Longrightarrow> cstate a1 x = cstate a x \<and> has_ondestroy a1 x = has_ondestroy a x"
      using cnot by (auto simp: a1_def)
    have ev: "clip_events stp t d a1 cs = clip_events stp t d a cs"
      using same by (rule clip_events_cong)
    have fin: "\<And>x. x \<in> set cs \<Longrightarrow> finished_in stp t d a1 x = finished_in stp t d a x"
      using same by (simp add: finished_in_def)
    have fl: "filter (\<lambda>c. \<not> finished_in stp t d a1 c) cs = filter (\<lambda>c. \<not> finished_in stp t d a c) cs"
      using fin by (intro filter_cong) simp_all
    have "clip_loop stp t d cur (a, evs) = Some (a', evs @ clip_events stp t d a (c # cs))"
      using step run ev False by (simp add: evs1_def r_def finished_in_def)
    moreover have "cseg (nxt a') (clipsHead a') (ps @ filter (\<lambda>c. \<not> finished_in stp t d a c) (c # cs)) None"
      using seq fl False by (simp add: finished_in_def r_def)
    moreover have "cstate a' = (\<lambda>x. if x \<in> set (c # cs) then snd (stp (cstate a x) t d) else cstate a x)"
      using cst same cnot by (auto simp: fun_eq_iff a1_def r_def)
    moreover have "same_driver a a'"
      using drv by (simp add: same_driver_def a1_def)
    moreover have "\<forall>x. x \<notin> set (c # cs) \<and> nxt a x = None \<longrightarrow> nxt a' x = None"
      using keep by (simp add: a1_nxt)
    moreover have "\<forall>x \<in> set (c # cs). finished_in stp t d a x \<longrightarrow> nxt a' x = None"
      using cut fin False by (auto simp: finished_in_def r_def)
    ultimately show ?thesis by blast
  qed
qed

text \<open>What a returning traversal appends to the log, whatever the store looks like.\<close>

lemma clip_loop_log:
  "clip_loop stp t d cur st = Some y \<Longrightarrow>
     same_driver (fst st) (fst y) \<and> (\<exists>es. snd y = snd st @ es \<and> list_all is_clip_event es)"
proof (induction stp t d cur st y rule: clip_loop.raw_induct [rotated 1, consumes 1])
  case (1 loop stp t d clip st y)
  show ?case
  proof (cases clip)
    case None
    with 1(2) show ?thesis by (simp add: same_driver_def)
  next
    case (Some c)
    define r where "r = stp (cstate (fst st) c) t d"
    define a1 where "a1 = (fst st)\<lparr>cstate := (cstate (fst st))(c := snd r)\<rparr>"
    define hook where "hook = (if has_ondestroy a1 c then [ClipDestroy c] else [])"
    have hook: "list_all is_clip_event hook" by (simp add: hook_def)
    show ?thesis
    proof (cases "fst r")
      case True
      with 1(2) Some
      have call: "loop stp t d (nxt (fst st) c) (removeClip c a1, (snd st @ [ClipStep c t d]) @ hook) = Some y"
        by (simp add: Let_def r_def a1_def hook_def)
      from 1(1) [OF call] obtain es where
        drv: "same_driver (removeClip c a1) (fst y)"
        and es: "snd y = ((snd st @ [ClipStep c t d]) @ hook) @ es" "list_all is_clip_event es"
        by auto
      have "same_driver (fst st) (fst y)"
        using drv by (simp add: same_driver_def a1_def removeClip_def)
      moreover have "snd y = snd st @ (ClipStep c t d # hook @ es)" using es(1) by simp
      moreover have "list_all is_clip_event (ClipStep c t d # hook @ es)" using es(2) hook by simp
      ultimately show ?thesis by blast
    next
      case False
      with 1(2) Some
      have call: "loop stp t d (nxt (fst st) c) (a1, snd st @ [ClipStep c t d]) = Some y"
        by (simp add: Let_def r_def a1_def)
      from 1(1) [OF call] obtain es where
        drv: "same_driver a1 (fst y)"
        and es: "snd y = (snd st @ [ClipStep c t d]) @ es" "list_all is_clip_event es"
        by auto
      have "same_driver (fst st) (fst y)"
        using drv by (simp add: same_driver_def a1_def)
      moreover have "snd y = snd st @ (ClipStep c t d # es)" using es(1) by simp
      moreover have "list_all is_clip_event (ClipStep c t d # es)" using es(2) by simp
      ultimately show ?thesis by blast
    qed
  qed
qed


lemma clip_events_are_clip_events: "list_all is_clip_event (clip_events stp t d a cs)"
  by (induction cs) simp_all

lemma clip_events_no_frame_effect:
  "list_all is_clip_event es \<Longrightarrow> filter is_frame_effect es = []"
proof (induction es)
  case Nil
  then show ?case by simp
next
  case (Cons e es)
  then show ?case by (cases e) simp_all
qed

lemma clip_events_all_kept:
  "list_all is_clip_event es \<Longrightarrow> filter is_clip_event es = es"
  by (induction es) simp_all



lemma count_steps_append: "count_steps c (xs @ ys) = count_steps c xs + count_steps c ys"
  by (simp add: count_steps_def)

lemma count_steps_clip_events:
  "distinct cs \<Longrightarrow> count_steps c (clip_events stp t d a cs) = (if c \<in> set cs then 1 else 0)"
  by (induction cs) (auto simp: count_steps_def)

text \<open>The frame notification of one call, as the spec words it.\<close>

lemma update_override_run:
  assumes "cseg (nxt a) (clipsHead a) cs None"
  shows "\<exists>a'. update_override E tln a nt =
               Some (a', clip_events (clip_step E) (TL_time tln) (TL_delta tln) a cs
                          @ (if nt then []
                             else [OnFrame (TL_delta tln), Trigger ''frame'' (TL_delta tln)]
                                    @ (if stage_has_update a then [StageUpdate] else [])))
            \<and> cseg (nxt a') (clipsHead a')
                 (filter (\<lambda>c. \<not> finished_in (clip_step E) (TL_time tln) (TL_delta tln) a c) cs) None
            \<and> same_driver a a'
            \<and> (\<forall>x \<in> set cs. finished_in (clip_step E) (TL_time tln) (TL_delta tln) a x
                    \<longrightarrow> nxt a' x = None)"
proof -
  have d: "distinct ([] @ cs)" using assms by (simp add: cseg_distinct)
  have h: "cseg (nxt a) (clipsHead a) ([] @ cs) None" using assms by simp
  from clip_loop_traverses [OF h d assms, of "clip_step E" "TL_time tln" "TL_delta tln" "[]"]
  obtain a' where
    run: "clip_loop (clip_step E) (TL_time tln) (TL_delta tln) (clipsHead a) (a, [])
            = Some (a', clip_events (clip_step E) (TL_time tln) (TL_delta tln) a cs)"
    and seq: "cseg (nxt a') (clipsHead a')
                (filter (\<lambda>c. \<not> finished_in (clip_step E) (TL_time tln) (TL_delta tln) a c) cs) None"
    and drv: "same_driver a a'"
    and cut: "\<forall>x \<in> set cs. finished_in (clip_step E) (TL_time tln) (TL_delta tln) a x
                 \<longrightarrow> nxt a' x = None"
    by auto
  from drv have "stage_has_update a' = stage_has_update a" by (simp add: same_driver_def)
  with run have "update_override E tln a nt =
      Some (a', clip_events (clip_step E) (TL_time tln) (TL_delta tln) a cs
                  @ (if nt then []
                     else [OnFrame (TL_delta tln), Trigger ''frame'' (TL_delta tln)]
                            @ (if stage_has_update a then [StageUpdate] else [])))"
    by (simp add: update_override_def Let_def)
  with seq drv cut show ?thesis by blast
qed

lemma update_override_log:
  assumes "update_override E tln a nt = Some (a', evs)"
  shows "same_driver a a' \<and>
         (\<exists>es. list_all is_clip_event es \<and>
               evs = es @ (if nt then []
                           else [OnFrame (TL_delta tln), Trigger ''frame'' (TL_delta tln)]
                                  @ (if stage_has_update a then [StageUpdate] else [])))"
proof -
  from assms obtain y where
    run: "clip_loop (clip_step E) (TL_time tln) (TL_delta tln) (clipsHead a) (a, []) = Some y"
    by (auto simp: update_override_def Let_def split: option.splits)
  from clip_loop_log [OF run] obtain es where
    drv: "same_driver a (fst y)" and es: "snd y = es" "list_all is_clip_event es" by auto
  from drv have st: "stage_has_update (fst y) = stage_has_update a" by (simp add: same_driver_def)
  from assms run have a': "a' = fst y"
    and evs: "evs = snd y @ (if nt then []
                           else [OnFrame (TL_delta tln), Trigger ''frame'' (TL_delta tln)]
                                  @ (if stage_has_update (fst y) then [StageUpdate] else []))"
    by (auto simp: update_override_def Let_def split: prod.splits if_splits)
  from drv a' es evs st show ?thesis by auto
qed

lemma advance_n_skips:
  assumes "cseg (nxt a) (clipsHead a) cs None"
  shows "\<exists>a2 evs2. advance_n E calls a = Some (a2, evs2) \<and>
                   (\<forall>c. c \<notin> set cs \<longrightarrow> count_steps c evs2 = 0)"
  using assms
proof (induction calls arbitrary: a cs)
  case Nil
  then show ?case by (simp add: count_steps_def)
next
  case (Cons call calls)
  define tln where "tln = \<lparr>TL_time = fst call, TL_delta = fst (snd call), cbs = []\<rparr>"
  define cs' where
    "cs' = filter (\<lambda>c. \<not> finished_in (clip_step E) (TL_time tln) (TL_delta tln) a c) cs"
  from update_override_run [OF Cons.prems, of E tln "snd (snd call)"] obtain a1 where
    run: "update_override E tln a (snd (snd call)) =
            Some (a1, clip_events (clip_step E) (TL_time tln) (TL_delta tln) a cs
                        @ (if snd (snd call) then []
                           else [OnFrame (TL_delta tln), Trigger ''frame'' (TL_delta tln)]
                                  @ (if stage_has_update a then [StageUpdate] else [])))"
    and seq: "cseg (nxt a1) (clipsHead a1) cs' None"
    unfolding cs'_def by blast
  from Cons.IH [OF seq] obtain a2 evs2 where
    later: "advance_n E calls a1 = Some (a2, evs2)"
    and skip: "\<forall>c. c \<notin> set cs' \<longrightarrow> count_steps c evs2 = 0" by blast
  have sub: "set cs' \<subseteq> set cs" by (auto simp: cs'_def)
  have d: "distinct cs" using Cons.prems by (rule cseg_distinct)
  have "advance_n E (call # calls) a =
          Some (a2, (clip_events (clip_step E) (TL_time tln) (TL_delta tln) a cs
                        @ (if snd (snd call) then []
                           else [OnFrame (TL_delta tln), Trigger ''frame'' (TL_delta tln)]
                                  @ (if stage_has_update a then [StageUpdate] else []))) @ evs2)"
    using run later by (simp add: tln_def)
  moreover have "count_steps c
        ((clip_events (clip_step E) (TL_time tln) (TL_delta tln) a cs
                        @ (if snd (snd call) then []
                           else [OnFrame (TL_delta tln), Trigger ''frame'' (TL_delta tln)]
                                  @ (if stage_has_update a then [StageUpdate] else []))) @ evs2) = 0"
    if "c \<notin> set cs" for c
  proof -
    from that sub have "c \<notin> set cs'" by blast
    with skip have "count_steps c evs2 = 0" by blast
    moreover have "count_steps c (clip_events (clip_step E) (TL_time tln) (TL_delta tln) a cs) = 0"
      using that d by (simp add: count_steps_clip_events)
    ultimately show ?thesis by (simp add: count_steps_append) (simp add: count_steps_def)
  qed
  ultimately show ?case by blast
qed


section \<open>The clock override\<close>

lemma example_driver_seq: "cseg (nxt example_driver) (clipsHead example_driver) [1, 2, 3] None"
  by (simp add: example_driver_def fixZrender_def example_chart_def example_animation_def)

lemma example_driver_events:
  "clip_events (clip_step example_ext) (TL_time example_timeline) (TL_delta example_timeline)
     example_driver [1, 2, 3]
   = [ClipStep 1 (Fin 16) (Fin 16), ClipDestroy 1, ClipStep 2 (Fin 16) (Fin 16), ClipStep 3 (Fin 16) (Fin 16)]"
  by (simp add: example_driver_def fixZrender_def example_chart_def example_animation_def
        example_ext_def example_timeline_def example_step_def finished_in_def)

lemma example_driver_finished:
  "filter (\<lambda>c. \<not> finished_in (clip_step example_ext) (TL_time example_timeline)
                    (TL_delta example_timeline) example_driver c) [1, 2, 3] = [2]"
  "finished_in (clip_step example_ext) (TL_time example_timeline)
                    (TL_delta example_timeline) example_driver 1"
  "finished_in (clip_step example_ext) (TL_time example_timeline)
                    (TL_delta example_timeline) example_driver 3"
  by (simp_all add: example_driver_def fixZrender_def example_chart_def example_animation_def
        example_ext_def example_timeline_def example_step_def finished_in_def)

text \<open>
  C5. For a clip sequence \<open>cs\<close> (the clips reachable from the head, ending in
  \<open>null\<close>), one call of the replaced \<open>update\<close> returns after a single pass from
  head to tail: its log steps every clip of \<open>cs\<close> exactly once, in order, and no other
  clip; the destroy hook of a clip that reports finished is called right after its step when
  the clip has one; afterwards the sequence is \<open>cs\<close> without the finished clips, whose
  own successor pointers are cleared (so the traversal went on from the successor read
  before the unlink); and no later call steps a finished clip.
\<close>

theorem update_override_single_pass:
  assumes "cseg (nxt a) (clipsHead a) cs None"
  shows "\<exists>a' evs. update_override E tln a nt = Some (a', evs)
           \<and> filter is_clip_event evs
               = clip_events (clip_step E) (TL_time tln) (TL_delta tln) a cs
           \<and> (\<forall>c. count_steps c evs = (if c \<in> set cs then 1 else 0))
           \<and> cseg (nxt a') (clipsHead a')
                (filter (\<lambda>c. \<not> finished_in (clip_step E) (TL_time tln) (TL_delta tln) a c) cs)
                None
           \<and> (\<forall>c \<in> set cs. finished_in (clip_step E) (TL_time tln) (TL_delta tln) a c
                   \<longrightarrow> nxt a' c = None)
           \<and> (\<forall>calls. \<exists>a2 evs2. advance_n E calls a' = Some (a2, evs2)
                   \<and> (\<forall>c \<in> set cs. finished_in (clip_step E) (TL_time tln) (TL_delta tln) a c
                           \<longrightarrow> count_steps c evs2 = 0))"
proof -
  define trav where "trav = clip_events (clip_step E) (TL_time tln) (TL_delta tln) a cs"
  define ntf where
    "ntf = (if nt then []
             else [OnFrame (TL_delta tln), Trigger ''frame'' (TL_delta tln)]
                    @ (if stage_has_update a then [StageUpdate] else []))"
  define cs' where
    "cs' = filter (\<lambda>c. \<not> finished_in (clip_step E) (TL_time tln) (TL_delta tln) a c) cs"
  from update_override_run [OF assms, of E tln nt] obtain a' where
    run: "update_override E tln a nt = Some (a', trav @ ntf)"
    and seq: "cseg (nxt a') (clipsHead a') cs' None"
    and cut: "\<forall>x \<in> set cs. finished_in (clip_step E) (TL_time tln) (TL_delta tln) a x
                 \<longrightarrow> nxt a' x = None"
    unfolding trav_def ntf_def cs'_def by blast
  have d: "distinct cs" using assms by (rule cseg_distinct)
  have clip: "list_all is_clip_event trav"
    unfolding trav_def by (rule clip_events_are_clip_events)
  have ntf0: "filter is_clip_event ntf = []" "count_steps c ntf = 0" for c
    by (simp_all add: ntf_def count_steps_def)
  have "filter is_clip_event (trav @ ntf) = trav"
    using clip ntf0(1) by (simp add: clip_events_all_kept)
  moreover have "count_steps c (trav @ ntf) = (if c \<in> set cs then 1 else 0)" for c
    using d ntf0(2) by (simp add: count_steps_append trav_def count_steps_clip_events)
  moreover have "\<exists>a2 evs2. advance_n E calls a' = Some (a2, evs2)
                   \<and> (\<forall>c \<in> set cs. finished_in (clip_step E) (TL_time tln) (TL_delta tln) a c
                           \<longrightarrow> count_steps c evs2 = 0)" for calls
  proof -
    from advance_n_skips [OF seq, of E calls] obtain a2 evs2 where
      later: "advance_n E calls a' = Some (a2, evs2)"
      and skip: "\<forall>c. c \<notin> set cs' \<longrightarrow> count_steps c evs2 = 0" by blast
    have "count_steps c evs2 = 0"
      if "finished_in (clip_step E) (TL_time tln) (TL_delta tln) a c" for c
    proof -
      from that have "c \<notin> set cs'" by (simp add: cs'_def)
      with skip show ?thesis by blast
    qed
    with later show ?thesis by blast
  qed
  ultimately show ?thesis using run seq cut unfolding trav_def cs'_def by blast
qed

theorem update_override_single_pass_witness:
  "cseg (nxt example_driver) (clipsHead example_driver) [1, 2, 3] None \<and>
   (\<exists>a' evs. update_override example_ext example_timeline example_driver False = Some (a', evs)
       \<and> filter is_clip_event evs
           = [ClipStep 1 (Fin 16) (Fin 16), ClipDestroy 1, ClipStep 2 (Fin 16) (Fin 16), ClipStep 3 (Fin 16) (Fin 16)]
       \<and> count_steps 1 evs = 1 \<and> count_steps 2 evs = 1 \<and> count_steps 3 evs = 1
       \<and> cseg (nxt a') (clipsHead a') [2] None
       \<and> nxt a' 1 = None \<and> nxt a' 3 = None
       \<and> (\<exists>a2 evs2. advance_n example_ext [(Fin 32, Fin 16, False), (Fin 48, Fin 16, True)] a' = Some (a2, evs2)
              \<and> count_steps 1 evs2 = 0 \<and> count_steps 3 evs2 = 0))"
proof -
  from update_override_single_pass [OF example_driver_seq, of example_ext example_timeline False]
  obtain a' evs where
    run: "update_override example_ext example_timeline example_driver False = Some (a', evs)"
    and log: "filter is_clip_event evs
               = clip_events (clip_step example_ext) (TL_time example_timeline)
                   (TL_delta example_timeline) example_driver [1, 2, 3]"
    and cnt: "\<forall>c. count_steps c evs = (if c \<in> set [1, 2, 3] then 1 else 0)"
    and seq: "cseg (nxt a') (clipsHead a')
                (filter (\<lambda>c. \<not> finished_in (clip_step example_ext) (TL_time example_timeline)
                    (TL_delta example_timeline) example_driver c) [1, 2, 3]) None"
    and cut: "\<forall>c \<in> set [1, 2, 3]. finished_in (clip_step example_ext) (TL_time example_timeline)
                    (TL_delta example_timeline) example_driver c \<longrightarrow> nxt a' c = None"
    and later: "\<forall>calls. \<exists>a2 evs2. advance_n example_ext calls a' = Some (a2, evs2)
                   \<and> (\<forall>c \<in> set [1, 2, 3]. finished_in (clip_step example_ext)
                          (TL_time example_timeline) (TL_delta example_timeline) example_driver c
                           \<longrightarrow> count_steps c evs2 = 0)"
    by blast
  from later obtain a2 evs2 where
    adv: "advance_n example_ext [(Fin 32, Fin 16, False), (Fin 48, Fin 16, True)] a' = Some (a2, evs2)"
    and skip: "\<forall>c \<in> set [1, 2, 3]. finished_in (clip_step example_ext)
                          (TL_time example_timeline) (TL_delta example_timeline) example_driver c
                           \<longrightarrow> count_steps c evs2 = 0"
    by blast
  have "count_steps 1 evs2 = 0" "count_steps 3 evs2 = 0" "nxt a' 1 = None" "nxt a' 3 = None"
    using skip cut example_driver_finished(2,3) by simp_all
  moreover have "count_steps 1 evs = 1" "count_steps 2 evs = 1" "count_steps 3 evs = 1"
    using cnt by simp_all
  moreover have "cseg (nxt a') (clipsHead a') [2] None"
    using seq by (simp only: example_driver_finished(1))
  moreover have "filter is_clip_event evs
           = [ClipStep 1 (Fin 16) (Fin 16), ClipDestroy 1, ClipStep 2 (Fin 16) (Fin 16), ClipStep 3 (Fin 16) (Fin 16)]"
    using log by (simp only: example_driver_events)
  ultimately show ?thesis using run adv example_driver_seq by blast
qed


text \<open>
  C6. A call of the replaced \<open>update\<close> on a clip sequence \<open>cs\<close> returns, and its
  log is the clip traversal followed by the frame notification: with the flag
  \<open>notTriggerFrameAndStageUpdate\<close> false (the default of a call without argument) the
  frame hook with delta, the "frame" event with delta, and the stage's update exactly when the
  stage has one; with the flag true nothing. The traversal itself contains none of the three.
\<close>

theorem update_override_frame_notification:
  assumes "cseg (nxt a) (clipsHead a) cs None"
  shows "\<exists>a' evs. update_override E tln a nt = Some (a', evs)
           \<and> evs = clip_events (clip_step E) (TL_time tln) (TL_delta tln) a cs
                     @ (if nt then []
                        else [OnFrame (TL_delta tln), Trigger ''frame'' (TL_delta tln)]
                               @ (if stage_has_update a then [StageUpdate] else []))
           \<and> filter is_frame_effect evs
               = (if nt then []
                  else [OnFrame (TL_delta tln), Trigger ''frame'' (TL_delta tln)]
                         @ (if stage_has_update a then [StageUpdate] else []))"
proof -
  from update_override_run [OF assms, of E tln nt] obtain a' where
    run: "update_override E tln a nt =
            Some (a', clip_events (clip_step E) (TL_time tln) (TL_delta tln) a cs
                        @ (if nt then []
                           else [OnFrame (TL_delta tln), Trigger ''frame'' (TL_delta tln)]
                                  @ (if stage_has_update a then [StageUpdate] else [])))"
    by blast
  have "filter is_frame_effect (clip_events (clip_step E) (TL_time tln) (TL_delta tln) a cs) = []"
    by (rule clip_events_no_frame_effect) (rule clip_events_are_clip_events)
  then have "filter is_frame_effect
               (clip_events (clip_step E) (TL_time tln) (TL_delta tln) a cs
                  @ (if nt then []
                     else [OnFrame (TL_delta tln), Trigger ''frame'' (TL_delta tln)]
                            @ (if stage_has_update a then [StageUpdate] else [])))
             = (if nt then []
                else [OnFrame (TL_delta tln), Trigger ''frame'' (TL_delta tln)]
                       @ (if stage_has_update a then [StageUpdate] else []))"
    by simp
  with run show ?thesis by blast
qed

theorem update_override_frame_notification_witness:
  "cseg (nxt example_driver) (clipsHead example_driver) [1, 2, 3] None \<and>
   (\<exists>a'. update_override example_ext example_timeline example_driver False
           = Some (a', [ClipStep 1 (Fin 16) (Fin 16), ClipDestroy 1, ClipStep 2 (Fin 16) (Fin 16), ClipStep 3 (Fin 16) (Fin 16),
                        OnFrame (Fin 16), Trigger ''frame'' (Fin 16), StageUpdate])) \<and>
   (\<exists>a'. update_override example_ext example_timeline example_driver True
           = Some (a', [ClipStep 1 (Fin 16) (Fin 16), ClipDestroy 1, ClipStep 2 (Fin 16) (Fin 16), ClipStep 3 (Fin 16) (Fin 16)]))"
proof -
  have st: "stage_has_update example_driver" "TL_delta example_timeline = Fin 16"
    by (simp_all add: example_driver_def fixZrender_def example_chart_def example_animation_def
          example_timeline_def)
  from update_override_frame_notification
         [OF example_driver_seq, of example_ext example_timeline False]
  have "\<exists>a'. update_override example_ext example_timeline example_driver False
           = Some (a', [ClipStep 1 (Fin 16) (Fin 16), ClipDestroy 1, ClipStep 2 (Fin 16) (Fin 16), ClipStep 3 (Fin 16) (Fin 16),
                        OnFrame (Fin 16), Trigger ''frame'' (Fin 16), StageUpdate])"
    by (simp only: example_driver_events) (simp add: st)
  moreover
  from update_override_frame_notification
         [OF example_driver_seq, of example_ext example_timeline True]
  have "\<exists>a'. update_override example_ext example_timeline example_driver True
           = Some (a', [ClipStep 1 (Fin 16) (Fin 16), ClipDestroy 1, ClipStep 2 (Fin 16) (Fin 16), ClipStep 3 (Fin 16) (Fin 16)])"
    by (simp only: example_driver_events) simp
  ultimately show ?thesis using example_driver_seq by blast
qed

text \<open>
  C8. Installing the override twice leaves the chart exactly as installing it once does, so
  every call of \<open>animation.update\<close> and of \<open>animation._startLoop\<close> behaves the
  same: the call of \<open>update\<close> runs the replacement, whose log, when it returns, holds the
  frame hook, the "frame" event and the stage update once (none with the flag set), and
  \<open>_startLoop\<close> only sets the running flag.
\<close>

theorem fixZrender_twice:
  "fixZrender (fixZrender ch) = fixZrender ch
   \<and> anim_update E tln (animation (fixZrender (fixZrender ch))) nt
       = anim_update E tln (animation (fixZrender ch)) nt
   \<and> anim_update E tln (animation (fixZrender ch)) nt
       = update_override E tln (animation (fixZrender ch)) nt
   \<and> (\<forall>a' evs. anim_update E tln (animation (fixZrender (fixZrender ch))) nt = Some (a', evs)
         \<longrightarrow> filter is_frame_effect evs
               = (if nt then []
                  else [OnFrame (TL_delta tln), Trigger ''frame'' (TL_delta tln)]
                         @ (if stage_has_update (animation ch) then [StageUpdate] else [])))
   \<and> anim_startLoop E (animation (fixZrender (fixZrender ch)))
       = anim_startLoop E (animation (fixZrender ch))
   \<and> anim_startLoop E (animation (fixZrender ch)) = (animation (fixZrender ch))\<lparr>running := True\<rparr>"
proof -
  have twice: "fixZrender (fixZrender ch) = fixZrender ch" by (simp add: fixZrender_def)
  have disp: "anim_update E tln (animation (fixZrender ch)) nt
               = update_override E tln (animation (fixZrender ch)) nt"
    by (simp add: anim_update_def fixZrender_def)
  have loop: "anim_startLoop E (animation (fixZrender ch))
               = (animation (fixZrender ch))\<lparr>running := True\<rparr>"
    by (simp add: anim_startLoop_def startLoop_override_def fixZrender_def)
  have once: "filter is_frame_effect evs
               = (if nt then []
                  else [OnFrame (TL_delta tln), Trigger ''frame'' (TL_delta tln)]
                         @ (if stage_has_update (animation ch) then [StageUpdate] else []))"
    if "anim_update E tln (animation (fixZrender (fixZrender ch))) nt = Some (a', evs)" for a' evs
  proof -
    from that have "update_override E tln (animation (fixZrender ch)) nt = Some (a', evs)"
      by (simp only: twice disp)
    from update_override_log [OF this] obtain es where
      es: "list_all is_clip_event es"
      and evs: "evs = es @ (if nt then []
                           else [OnFrame (TL_delta tln), Trigger ''frame'' (TL_delta tln)]
                                  @ (if stage_has_update (animation (fixZrender ch))
                                     then [StageUpdate] else []))"
      by blast
    have "stage_has_update (animation (fixZrender ch)) = stage_has_update (animation ch)"
      by (simp add: fixZrender_def)
    with evs clip_events_no_frame_effect [OF es] show ?thesis by simp
  qed
  from twice disp loop once show ?thesis by simp
qed

theorem fixZrender_twice_witness:
  "(\<exists>a' evs. anim_update example_ext example_timeline
                (animation (fixZrender (fixZrender example_chart))) False = Some (a', evs)
        \<and> filter is_frame_effect evs = [OnFrame (Fin 16), Trigger ''frame'' (Fin 16), StageUpdate])
   \<and> fixZrender (fixZrender example_chart) = fixZrender example_chart
   \<and> running (anim_startLoop example_ext (animation (fixZrender (fixZrender example_chart))))"
proof -
  note inst = fixZrender_twice [of example_chart example_ext example_timeline False]
  from update_override_run [OF example_driver_seq, of example_ext example_timeline False]
  obtain a' evs where
    "update_override example_ext example_timeline (animation (fixZrender example_chart)) False
       = Some (a', evs)"
    unfolding example_driver_def by blast
  with inst have run: "anim_update example_ext example_timeline
                (animation (fixZrender (fixZrender example_chart))) False = Some (a', evs)"
    by simp
  with inst have "filter is_frame_effect evs
      = [OnFrame (TL_delta example_timeline), Trigger ''frame'' (TL_delta example_timeline)]
          @ (if stage_has_update (animation example_chart) then [StageUpdate] else [])"
    by simp
  then have "filter is_frame_effect evs = [OnFrame (Fin 16), Trigger ''frame'' (Fin 16), StageUpdate]"
    by (simp add: example_timeline_def example_chart_def example_animation_def)
  moreover from inst
  have "running (anim_startLoop example_ext (animation (fixZrender (fixZrender example_chart))))"
    by simp
  ultimately show ?thesis using run inst by blast
qed


section \<open>The frame bridge\<close>

text \<open>
  C3. The interval stored by \<open>update\<close> is the argument multiplied by 1000 when the
  argument is below 50 and the argument itself otherwise, for every number; the product is
  the one of JavaScript numbers, the exact product rounded to the nearest double. The double
  of 1.2 is stored as 1200, 1500 as 1500, and 50 as 50.
\<close>

theorem update_normalizes_interval:
  "userCallbackTime (update this func (Some x))
     = Some (if js_lt x (Fin 50) then js_mul x (Fin 1000) else x)
   \<and> js_mul (Fin r) (Fin 1000) = fl (r * 1000)
   \<and> userCallbackTime (update this func (Some (fl 1.2))) = Some (Fin 1200)
   \<and> userCallbackTime (update this func (Some (Fin 1500))) = Some (Fin 1500)
   \<and> userCallbackTime (update this func (Some (Fin 50))) = Some (Fin 50)"
proof -
  have "js_mul (Fin r) (Fin 1000) = fl (r * 1000)" by (simp add: js_mul_Fin)
  moreover have "userCallbackTime (update this func (Some x))
     = Some (if js_lt x (Fin 50) then js_mul x (Fin 1000) else x)"
    by (simp add: update_def)
  moreover have "userCallbackTime (update this func (Some (fl 1.2))) = Some (Fin 1200)"
    by (simp add: update_def lit_1_2 mul_1_2)
  moreover have "userCallbackTime (update this func (Some (Fin 1500))) = Some (Fin 1500)"
    by (simp add: update_def)
  moreover have "userCallbackTime (update this func (Some (Fin 50))) = Some (Fin 50)"
    by (simp add: update_def)
  ultimately show ?thesis by (simp only: simp_thms)
qed

text \<open>
  Further values: the double of 4.03 is stored as 4030.0000000000005 and the double of 8.05
  as 8050.000000000001 (the roundings of the products), NaN as NaN and the negative infinity
  as itself.
\<close>

theorem update_normalizes_interval_witness:
  "userCallbackTime (update example_new example_callback (Some (fl 4.03)))
     = Some (Fin (8862063719874561 / 2199023255552))
   \<and> userCallbackTime (update example_new example_callback (Some (fl 8.05)))
       = Some (Fin (8851068603596801 / 1099511627776))
   \<and> userCallbackTime (update example_new example_callback (Some NaN)) = Some NaN
   \<and> userCallbackTime (update example_new example_callback (Some NInf)) = Some NInf"
proof -
  from update_normalizes_interval [of example_new example_callback "fl 4.03"]
  have "userCallbackTime (update example_new example_callback (Some (fl 4.03)))
     = Some (Fin (8862063719874561 / 2199023255552))"
    by (simp add: lit_4_03 mul_4_03)
  moreover
  from update_normalizes_interval [of example_new example_callback "fl 8.05"]
  have "userCallbackTime (update example_new example_callback (Some (fl 8.05)))
       = Some (Fin (8851068603596801 / 1099511627776))"
    by (simp add: lit_8_05 mul_8_05)
  moreover
  from update_normalizes_interval [of example_new example_callback NaN]
  have "userCallbackTime (update example_new example_callback (Some NaN)) = Some NaN"
    by (simp add: js_lt_def)
  moreover
  from update_normalizes_interval [of example_new example_callback NInf]
  have "userCallbackTime (update example_new example_callback (Some NInf)) = Some NInf"
    by (simp add: js_lt_def js_mul_def js_sign_def)
  ultimately show ?thesis by simp
qed

text \<open>
  C10. \<open>update(func)\<close> without an interval is \<open>update(func, 0.3)\<close>: the omitted
  argument takes the default 0.3, which is below 50 and whose product with 1000 is exactly
  300, so the callback is registered with the stored interval 300.
\<close>

theorem update_default_interval:
  "update this func None = update this func (Some (fl 0.3))
   \<and> js_lt (fl 0.3) (Fin 50)
   \<and> js_mul (fl 0.3) (Fin 1000) = Fin 300
   \<and> userCallback (update this func None) = Some func
   \<and> userCallbackTime (update this func None) = Some (Fin 300)"
  by (simp add: update_def lit_0_3 mul_0_3)

theorem update_default_interval_witness:
  "update example_new example_callback None
     = example_new\<lparr>userCallback := Some example_callback, userCallbackTime := Some (Fin 300)\<rparr>
   \<and> userCallbackTime (update example_new example_callback None) = Some (Fin 300)"
proof -
  note default = update_default_interval [of example_new example_callback]
  from default [THEN conjunct2, THEN conjunct2, THEN conjunct2, THEN conjunct2]
  have "userCallbackTime (update example_new example_callback None) = Some (Fin 300)" .
  moreover have "update example_new example_callback None
     = example_new\<lparr>userCallback := Some example_callback, userCallbackTime := Some (Fin 300)\<rparr>"
    by (simp add: update_def lit_0_3 mul_0_3)
  ultimately show ?thesis by simp
qed

text \<open>
  C1, as the code has it. While no user callback is registered the handler returns at once:
  the instance is unchanged and nothing is logged, so the engine is not advanced.
\<close>

theorem updateCallback_without_callback:
  assumes "userCallback this = None"
  shows "updateCallback E tln this t d = Some (Inr (this, []))"
  using assms by (simp add: updateCallback_def)

theorem updateCallback_without_callback_witness:
  "userCallback example_started = None \<and>
   updateCallback example_ext example_timeline example_started (Fin 16) (Fin 16)
     = Some (Inr (example_started, []))"
proof -
  have h: "userCallback example_started = None"
    by (simp add: example_started_def example_new_def constructor_def)
  from updateCallback_without_callback [OF h] h show ?thesis by simp
qed

text \<open>
  C1 as stated fails: the started example instance has no callback, its driver is running and
  not paused, and the engine advance on its chart would step the three clips and notify the
  frame, but the handler returns with an empty log and the instance unchanged.
\<close>

theorem updateCallback_advance_counterexample:
  "start example_ext example_timeline example_new
     = Inr (example_started, addFrameCallback BoundMethod example_timeline, [])
   \<and> userCallback example_started = None
   \<and> updateCallback example_ext example_timeline example_started (Fin 16) (Fin 16)
       = Some (Inr (example_started, []))
   \<and> log_of (echartsUpdate example_ext example_timeline (chart example_started) (Fin 16) (Fin 16))
       = Some [ClipStep 1 (Fin 16) (Fin 16), ClipDestroy 1, ClipStep 2 (Fin 16) (Fin 16), ClipStep 3 (Fin 16) (Fin 16),
               OnFrame (Fin 16), Trigger ''frame'' (Fin 16), StageUpdate]"
proof -
  have "start example_ext example_timeline example_new
     = Inr (example_started, addFrameCallback BoundMethod example_timeline, [])"
    by (simp add: start_def initECahrts_def example_ext_def example_started_def example_new_def constructor_def)
  moreover have "userCallback example_started = None"
    by (simp add: example_started_def example_new_def constructor_def)
  moreover have "updateCallback example_ext example_timeline example_started (Fin 16) (Fin 16)
       = Some (Inr (example_started, []))"
    by (simp add: updateCallback_def example_started_def example_new_def constructor_def)
  moreover have "log_of (echartsUpdate example_ext example_timeline (chart example_started) (Fin 16) (Fin 16))
       = Some [ClipStep 1 (Fin 16) (Fin 16), ClipDestroy 1, ClipStep 2 (Fin 16) (Fin 16), ClipStep 3 (Fin 16) (Fin 16),
               OnFrame (Fin 16), Trigger ''frame'' (Fin 16), StageUpdate]"
    by (simp add: log_of_def echartsUpdate_def anim_update_def update_override_def
          clip_loop.simps removeClip_def Let_def example_started_def example_new_def constructor_def
          fixZrender_def example_chart_def example_animation_def example_step_def
          example_ext_def example_timeline_def)
  ultimately show ?thesis by simp
qed

text \<open>
  C2, as the code has it. \<open>destroy()\<close> raises whenever the instance holds no chart: a
  TypeError from \<open>this.chart.dispose()\<close> when the inherited destroy returned. A fresh
  instance holds no chart, and a \<open>destroy()\<close> that returns leaves none. It returns only
  for an instance that holds a chart, and then it unsubscribes the handler, disposes the chart
  and clears the callback.
\<close>

theorem destroy_needs_chart:
  "(chart this = None \<longrightarrow> (\<exists>e. destroy E tln this = Inl e))
   \<and> (\<forall>b. chart this = None \<and> super_destroy E (base this) = Inr b
          \<longrightarrow> destroy E tln this = Inl TypeError)
   \<and> chart (constructor u b0) = None
   \<and> (\<forall>this' tln' evs. destroy E tln this = Inr (this', tln', evs)
          \<longrightarrow> chart this \<noteq> None \<and> chart this' = None \<and> userCallback this' = None
               \<and> tln' = removeFrameCallback (updateCallback_ref this) tln
               \<and> evs = [ChartDispose])"
  by (auto simp: destroy_def constructor_def Let_def split: sum.splits option.splits)

text \<open>
  C2 as stated fails: \<open>destroy()\<close> on the fresh example instance, never started, raises
  a TypeError, and so does a second \<open>destroy()\<close> after the first one returned.
\<close>

theorem destroy_noop_counterexample:
  "destroy example_ext example_timeline example_new = Inl TypeError
   \<and> destroy example_ext (addFrameCallback BoundMethod example_timeline) example_started
       = Inr (example_destroyed, example_timeline, [ChartDispose])
   \<and> destroy example_ext example_timeline example_destroyed = Inl TypeError"
  by (simp add: destroy_def addFrameCallback_def removeFrameCallback_def example_timeline_def
        example_ext_def example_destroyed_def example_started_def example_new_def constructor_def)

theorem destroy_needs_chart_witness:
  "chart example_new = None
   \<and> super_destroy example_ext (base example_new) = Inr ()
   \<and> destroy example_ext example_timeline example_new = Inl TypeError
   \<and> destroy example_ext (addFrameCallback BoundMethod example_timeline) example_started
       = Inr (example_destroyed, example_timeline, [ChartDispose])
   \<and> chart example_started \<noteq> None \<and> chart example_destroyed = None"
proof -
  have h: "chart example_new = None \<and> super_destroy example_ext (base example_new) = Inr ()"
    by (simp add: example_new_def constructor_def example_ext_def)
  have d: "destroy example_ext (addFrameCallback BoundMethod example_timeline) example_started
       = Inr (example_destroyed, example_timeline, [ChartDispose])"
    by (simp add: destroy_def addFrameCallback_def removeFrameCallback_def example_timeline_def
          example_ext_def example_destroyed_def example_started_def example_new_def constructor_def)
  note fresh = destroy_needs_chart [of example_new example_ext example_timeline,
      THEN conjunct2, THEN conjunct1, rule_format, OF h]
  note gone = destroy_needs_chart
      [of example_started example_ext "addFrameCallback BoundMethod example_timeline",
       THEN conjunct2, THEN conjunct2, THEN conjunct2, rule_format, OF d]
  from h d fresh gone show ?thesis by simp
qed

text \<open>
  C7. After a \<open>destroy()\<close> that returned, a tick delivered to the handler returns
  normally, leaves the instance unchanged and logs nothing: the engine is not advanced (the
  instance holds no chart any more).
\<close>

theorem stale_tick_after_destroy:
  assumes "destroy E tln this = Inr (this', tln', evs)"
  shows "updateCallback E tln2 this' t d = Some (Inr (this', [])) \<and> chart this' = None"
proof -
  from assms have "userCallback this' = None" and "chart this' = None"
    by (auto simp: destroy_def Let_def split: sum.splits option.splits)
  then show ?thesis by (simp add: updateCallback_def)
qed

theorem stale_tick_after_destroy_witness:
  "destroy example_ext (addFrameCallback BoundMethod example_timeline)
       (update example_started example_callback (Some (Fin 50)))
     = Inr (example_destroyed, example_timeline, [ChartDispose])
   \<and> updateCallback example_ext example_timeline example_destroyed (Fin 32) (Fin 16)
       = Some (Inr (example_destroyed, []))"
proof -
  have d: "destroy example_ext (addFrameCallback BoundMethod example_timeline)
       (update example_started example_callback (Some (Fin 50)))
     = Inr (example_destroyed, example_timeline, [ChartDispose])"
    by (simp add: destroy_def addFrameCallback_def removeFrameCallback_def example_timeline_def
          example_ext_def example_destroyed_def update_def example_started_def example_new_def constructor_def)
  from stale_tick_after_destroy [OF d] d show ?thesis by simp
qed

text \<open>
  C9. With a callback registered and the flag set by \<open>updateNow()\<close>, a \<open>start()\<close>
  whose collaborators return calls the callback exactly once, with the chart created by the
  initialization (override installed), inside \<open>start()\<close>: the log of \<open>start()\<close> is
  that one call, and delivering no tick afterwards adds nothing.
\<close>

theorem start_updateNow_calls_back_once:
  assumes "userCallback this = Some cb" and "updateCallback_ref this = Some m"
    and "echarts_init E = Inr ch0" and "initTexture E (base this) = Inr b1"
    and "animations_start E b1 = Inr b2" and "cb (fixZrender ch0) = Inr ch1"
  shows "start E tln (updateNow this)
           = Inr (this\<lparr>runUpdateNow := True, chart := Some ch1,
                       updateCallback_ref := Some BoundMethod, base := b2\<rparr>,
                  addFrameCallback BoundMethod tln, [UserCallback (time this)])
         \<and> deliver E tln2 (this\<lparr>runUpdateNow := True, chart := Some ch1,
                       updateCallback_ref := Some BoundMethod, base := b2\<rparr>) []
             = Some (Inr (this\<lparr>runUpdateNow := True, chart := Some ch1,
                       updateCallback_ref := Some BoundMethod, base := b2\<rparr>, []))"
  using assms by (simp add: start_def initECahrts_def updateNow_def)

theorem start_updateNow_calls_back_once_witness:
  "userCallback (update example_new example_callback (Some (Fin 50))) = Some example_callback
   \<and> example_callback (fixZrender example_chart)
       = Inr ((fixZrender example_chart)
                \<lparr>animation := (animation (fixZrender example_chart))\<lparr>paused := True\<rparr>\<rparr>)
   \<and> start example_ext example_timeline
         (updateNow (update example_new example_callback (Some (Fin 50))))
       = Inr ((update example_new example_callback (Some (Fin 50)))
                \<lparr>runUpdateNow := True,
                 chart := Some ((fixZrender example_chart)
                   \<lparr>animation := (animation (fixZrender example_chart))\<lparr>paused := True\<rparr>\<rparr>),
                 updateCallback_ref := Some BoundMethod, base := ()\<rparr>,
              addFrameCallback BoundMethod example_timeline, [UserCallback (Fin 0)])"
proof -
  have h1: "userCallback (update example_new example_callback (Some (Fin 50))) = Some example_callback"
    and h2: "updateCallback_ref (update example_new example_callback (Some (Fin 50))) = Some ProtoMethod"
    and h3: "echarts_init example_ext = Inr example_chart"
    and h4: "initTexture example_ext (base (update example_new example_callback (Some (Fin 50)))) = Inr ()"
    and h5: "animations_start example_ext () = Inr ()"
    and h6: "example_callback (fixZrender example_chart)
       = Inr ((fixZrender example_chart)
                \<lparr>animation := (animation (fixZrender example_chart))\<lparr>paused := True\<rparr>\<rparr>)"
    and h7: "time (update example_new example_callback (Some (Fin 50))) = Fin 0"
    by (simp_all add: example_new_def constructor_def update_def example_ext_def
          example_callback_def)
  from start_updateNow_calls_back_once [OF h1 h2 h3 h4 h5 h6, of example_timeline example_timeline]
  show ?thesis using h1 h6 by (simp add: h7)
qed


section \<open>The callback schedule\<close>










text \<open>The accumulator is 0 after \<open>start()\<close> on a fresh instance with a callback.\<close>

lemma accumulator_zero_after_start:
  assumes "start E tln (update (constructor u b) func iv) = Inr (this, tln', evs)"
  shows "time this = Fin 0 \<and> userCallback this = Some func \<and> userCallbackTime this \<noteq> None
         \<and> chart this \<noteq> None"
  using assms
  by (auto simp: start_def initECahrts_def update_def constructor_def Let_def
        split: sum.splits option.splits if_splits)








end
